theory Spec2Isabelle
  imports Main "HOL-Library.Word"
begin

section \<open>JavaScript strings and numbers\<close>

text \<open>
  A JavaScript string is a sequence of UTF-16 code units; \<open>length\<close>, \<open>===\<close>,
  \<open>substring\<close> and a regular expression without the \<open>u\<close> flag all work on code units.
\<close>

type_synonym jschar = "16 word"
type_synonym jsstring = "jschar list"

text \<open>ASCII literals of the source, written as HOL strings.\<close>

definition js :: "string \<Rightarrow> jsstring" where
  "js s = map of_char s"

text \<open>The character classes the regular expressions of the service use.\<close>

definition is_digit :: "jschar \<Rightarrow> bool" where
  \<comment> \<open>\<^verbatim>\<open>\d\<close>, that is \<^verbatim>\<open>[0-9]\<close>\<close>
  "is_digit c = (0x30 \<le> c \<and> c \<le> 0x39)"

definition is_lower :: "jschar \<Rightarrow> bool" where
  \<comment> \<open>\<^verbatim>\<open>[a-z]\<close>\<close>
  "is_lower c = (0x61 \<le> c \<and> c \<le> 0x7A)"

definition is_upper :: "jschar \<Rightarrow> bool" where
  \<comment> \<open>\<^verbatim>\<open>[A-Z]\<close>\<close>
  "is_upper c = (0x41 \<le> c \<and> c \<le> 0x5A)"

definition is_symbol :: "jschar \<Rightarrow> bool" where
  \<comment> \<open>\<^verbatim>\<open>[@$!%*?&]\<close>\<close>
  "is_symbol c = (c \<in> set (js ''@$!%*?&''))"

definition is_password_char :: "jschar \<Rightarrow> bool" where
  \<comment> \<open>\<^verbatim>\<open>[A-Za-z\d@$!%*?&]\<close>\<close>
  "is_password_char c = (is_upper c \<or> is_lower c \<or> is_digit c \<or> is_symbol c)"

definition is_line_terminator :: "jschar \<Rightarrow> bool" where
  \<comment> \<open>LF, CR, LS, PS: what \<^verbatim>\<open>.\<close> does not match\<close>
  "is_line_terminator c = (c \<in> set [0x000A, 0x000D, 0x2028, 0x2029])"

definition is_space :: "jschar \<Rightarrow> bool" where
  \<comment> \<open>\<^verbatim>\<open>\s\<close>: the white space and line terminator code points of ECMAScript\<close>
  "is_space c =
     (c \<in> set [0x0009, 0x000B, 0x000C, 0x0020, 0x00A0, 0x1680, 0x202F, 0x205F, 0x3000, 0xFEFF]
      \<or> (0x2000 \<le> c \<and> c \<le> 0x200A) \<or> is_line_terminator c)"

definition not_space_at :: "jschar \<Rightarrow> bool" where
  \<comment> \<open>\<^verbatim>\<open>[^\s@]\<close>\<close>
  "not_space_at c = (\<not> is_space c \<and> c \<noteq> 0x40)"

definition any_char :: "jschar \<Rightarrow> bool" where
  \<comment> \<open>\<^verbatim>\<open>.\<close> without the \<open>s\<close> flag\<close>
  "any_char c = (\<not> is_line_terminator c)"

subsection \<open>Regular expressions\<close>

text \<open>
  The patterns of the service are anchored at both ends and use classes, literals,
  concatenation and repetition only (and look-aheads at the start, below). On such a
  pattern \<open>test\<close> decides membership of the whole string in the pattern's language;
  the model decides it by derivatives.
\<close>

datatype rx =
    Never
  | Empty
  | Cls "jschar \<Rightarrow> bool"
  | Alt rx rx
  | Cat rx rx
  | Star rx

definition Lit :: "char \<Rightarrow> rx" where
  "Lit c = Cls (\<lambda>x. x = of_char c)"

definition OneOrMore :: "rx \<Rightarrow> rx" where
  \<comment> \<open>\<^verbatim>\<open>r+\<close>\<close>
  "OneOrMore r = Cat r (Star r)"

primrec Exactly :: "nat \<Rightarrow> rx \<Rightarrow> rx" where
  \<comment> \<open>\<^verbatim>\<open>r{n}\<close>\<close>
  "Exactly 0 r = Empty"
| "Exactly (Suc n) r = Cat r (Exactly n r)"

primrec AtLeast :: "nat \<Rightarrow> rx \<Rightarrow> rx" where
  \<comment> \<open>\<^verbatim>\<open>r{n,}\<close>\<close>
  "AtLeast 0 r = Star r"
| "AtLeast (Suc n) r = Cat r (AtLeast n r)"

primrec nullable :: "rx \<Rightarrow> bool" where
  "nullable Never = False"
| "nullable Empty = True"
| "nullable (Cls p) = False"
| "nullable (Alt r s) = (nullable r \<or> nullable s)"
| "nullable (Cat r s) = (nullable r \<and> nullable s)"
| "nullable (Star r) = True"

primrec deriv :: "jschar \<Rightarrow> rx \<Rightarrow> rx" where
  "deriv c Never = Never"
| "deriv c Empty = Never"
| "deriv c (Cls p) = (if p c then Empty else Never)"
| "deriv c (Alt r s) = Alt (deriv c r) (deriv c s)"
| "deriv c (Cat r s) =
     (if nullable r then Alt (Cat (deriv c r) s) (deriv c s) else Cat (deriv c r) s)"
| "deriv c (Star r) = Cat (deriv c r) (Star r)"

primrec matches :: "rx \<Rightarrow> jsstring \<Rightarrow> bool" where
  \<comment> \<open>\<^verbatim>\<open>/^r$/.test(s)\<close>\<close>
  "matches r [] = nullable r"
| "matches r (c # s) = matches (deriv c r) s"

definition lookahead :: "rx \<Rightarrow> jsstring \<Rightarrow> bool" where
  \<comment> \<open>\<^verbatim>\<open>(?=r)\<close> right after \<^verbatim>\<open>^\<close>: some prefix of the input matches \<open>r\<close>\<close>
  "lookahead r s = list_ex (\<lambda>n. matches r (take n s)) [0..<Suc (length s)]"

subsection \<open>Numbers\<close>

text \<open>
  The numbers of the service are integers far below \<open>2^53\<close>, or NaN (from
  \<open>parseInt\<close>): \<open>None\<close> is NaN.
\<close>

type_synonym jsnum = "int option"

definition num_add :: "jsnum \<Rightarrow> jsnum \<Rightarrow> jsnum" where
  "num_add a b = (case (a, b) of (Some x, Some y) \<Rightarrow> Some (x + y) | _ \<Rightarrow> None)"

definition num_mul :: "jsnum \<Rightarrow> jsnum \<Rightarrow> jsnum" where
  "num_mul a b = (case (a, b) of (Some x, Some y) \<Rightarrow> Some (x * y) | _ \<Rightarrow> None)"

definition num_rem :: "jsnum \<Rightarrow> int \<Rightarrow> jsnum" where
  \<comment> \<open>\<^verbatim>\<open>a % m\<close> for a constant \<open>m \<noteq> 0\<close>: the sign of the dividend\<close>
  "num_rem a m = (case a of Some x \<Rightarrow> Some (sgn x * (\<bar>x\<bar> mod \<bar>m\<bar>)) | None \<Rightarrow> None)"

definition num_eq :: "jsnum \<Rightarrow> jsnum \<Rightarrow> bool" where
  \<comment> \<open>\<^verbatim>\<open>===\<close> on numbers: NaN equals nothing\<close>
  "num_eq a b = (case (a, b) of (Some x, Some y) \<Rightarrow> x = y | _ \<Rightarrow> False)"

definition digit_value :: "jschar \<Rightarrow> int" where
  "digit_value c = int (unat (c - 0x30))"

definition is_radix_digit :: "int \<Rightarrow> jschar \<Rightarrow> bool" where
  \<comment> \<open>a digit of radix 10 or 16\<close>
  "is_radix_digit radix c =
     (is_digit c \<or> (radix = 16 \<and> ((0x61 \<le> c \<and> c \<le> 0x66) \<or> (0x41 \<le> c \<and> c \<le> 0x46))))"

definition radix_digit_value :: "jschar \<Rightarrow> int" where
  "radix_digit_value c =
     (if is_digit c then digit_value c
      else if 0x61 \<le> c \<and> c \<le> 0x66 then int (unat (c - 0x61)) + 10
      else int (unat (c - 0x41)) + 10)"

definition parseInt :: "jsstring \<Rightarrow> jsnum" where
  \<comment> \<open>\<open>parseInt(s)\<close> with no radix: leading white space is skipped, then an optional
      sign, then \<^verbatim>\<open>0x\<close> or \<^verbatim>\<open>0X\<close> selects radix 16, then the longest run of digits is
      read; NaN when that run is empty\<close>
  "parseInt s =
     (let t = dropWhile is_space s;
          neg = (case t of c # _ \<Rightarrow> c = 0x2D | [] \<Rightarrow> False);
          u = (case t of c # r \<Rightarrow> if c = 0x2D \<or> c = 0x2B then r else t | [] \<Rightarrow> t);
          hex = (case u of a # b # _ \<Rightarrow> a = 0x30 \<and> (b = 0x78 \<or> b = 0x58) | _ \<Rightarrow> False);
          radix = (if hex then 16 else 10);
          v = (if hex then drop 2 u else u);
          z = takeWhile (is_radix_digit radix) v
      in if z = [] then None
         else Some ((if neg then - 1 else 1) * foldl (\<lambda>a c. radix * a + radix_digit_value c) 0 z))"

definition substring :: "jsstring \<Rightarrow> nat \<Rightarrow> nat \<Rightarrow> jsstring" where
  \<comment> \<open>\<open>s.substring(a, b)\<close>: indices are clamped to the length, and swapped if \<open>a > b\<close>\<close>
  "substring s a b = take (max a b - min a b) (drop (min a b) s)"

definition char_at :: "jsstring \<Rightarrow> nat \<Rightarrow> jsstring" where
  \<comment> \<open>\<open>s[i]\<close> as \<open>parseInt\<close> reads it: one code unit, or \<open>undefined\<close>, which
      \<open>parseInt\<close> turns into the string \<^verbatim>\<open>undefined\<close>\<close>
  "char_at s i = (if i < length s then [s ! i] else js ''undefined'')"

fun digits_of :: "nat \<Rightarrow> jsstring" where
  "digits_of n =
     (if n < 10 then [0x30 + of_nat n] else digits_of (n div 10) @ [0x30 + of_nat (n mod 10)])"

declare digits_of.simps [simp del]

definition toString :: "int \<Rightarrow> jsstring" where
  \<comment> \<open>decimal digits of an integer number, as \<open>toString\<close> and a template literal give\<close>
  "toString i = (if i < 0 then of_char CHR ''-'' # digits_of (nat (- i)) else digits_of (nat i))"

section \<open>The validators\<close>

definition emailRegex :: rx where
  \<comment> \<open>\<^verbatim>\<open>/^[^\s@]+@[^\s@]+\.[^\s@]+$/\<close>\<close>
  "emailRegex =
     Cat (OneOrMore (Cls not_space_at))
    (Cat (Lit CHR ''@'')
    (Cat (OneOrMore (Cls not_space_at))
    (Cat (Lit CHR ''.'')
         (OneOrMore (Cls not_space_at)))))"

definition isValidEmail :: "jsstring \<Rightarrow> bool" where
  "isValidEmail email = matches emailRegex email"

definition passwordBody :: rx where
  \<comment> \<open>\<^verbatim>\<open>[A-Za-z\d@$!%*?&]{8,}\<close>\<close>
  "passwordBody = AtLeast 8 (Cls is_password_char)"

definition isValidPassword :: "jsstring \<Rightarrow> bool" where
  \<comment> \<open>\<^verbatim>\<open>/^(?=.*[a-z])(?=.*[A-Z])(?=.*\d)(?=.*[@$!%*?&])[A-Za-z\d@$!%*?&]{8,}$/\<close>\<close>
  "isValidPassword password =
     (lookahead (Cat (Star (Cls any_char)) (Cls is_lower)) password
    \<and> lookahead (Cat (Star (Cls any_char)) (Cls is_upper)) password
    \<and> lookahead (Cat (Star (Cls any_char)) (Cls is_digit)) password
    \<and> lookahead (Cat (Star (Cls any_char)) (Cls is_symbol)) password
    \<and> matches passwordBody password)"

definition cpfRegex :: rx where
  \<comment> \<open>\<^verbatim>\<open>/^\d{3}\.\d{3}\.\d{3}\-\d{2}$/\<close>\<close>
  "cpfRegex =
     Cat (Exactly 3 (Cls is_digit))
    (Cat (Lit CHR ''.'')
    (Cat (Exactly 3 (Cls is_digit))
    (Cat (Lit CHR ''.'')
    (Cat (Exactly 3 (Cls is_digit))
    (Cat (Lit CHR ''-'')
         (Exactly 2 (Cls is_digit)))))))"

definition isValidCpfFormat :: "jsstring \<Rightarrow> bool" where
  "isValidCpfFormat cpf = matches cpfRegex cpf"

definition invalidCpfs :: "jsstring list" where
  "invalidCpfs =
     [js ''00000000000'', js ''11111111111'', js ''22222222222'', js ''33333333333'',
      js ''44444444444'', js ''55555555555'', js ''66666666666'', js ''77777777777'',
      js ''88888888888'', js ''99999999999'']"

text \<open>The loop of \<open>calculateCpfDigit\<close>, from \<open>i\<close> on, with the sum so far.\<close>

function calculateCpfDigit_loop :: "jsstring \<Rightarrow> nat \<Rightarrow> nat \<Rightarrow> jsnum \<Rightarrow> jsnum" where
  "calculateCpfDigit_loop base len i acc =
     (if i \<le> len
      then calculateCpfDigit_loop base len (Suc i)
             (num_add acc (num_mul (parseInt (substring base (i - 1) i)) (Some (int (len + 2 - i)))))
      else acc)"
  by pat_completeness auto
termination
  by (relation "measure (\<lambda>(base, len, i, acc). Suc len - i)") auto

declare calculateCpfDigit_loop.simps [simp del]

definition calculateCpfDigit :: "jsstring \<Rightarrow> nat \<Rightarrow> jsnum" where
  "calculateCpfDigit base len =
     (let remainder = num_rem (num_mul (calculateCpfDigit_loop base len 1 (Some 0)) (Some 10)) 11
      in if num_eq remainder (Some 10) \<or> num_eq remainder (Some 11) then Some 0 else remainder)"

definition isValidCpfDigits :: "jsstring \<Rightarrow> bool" where
  \<comment> \<open>\<^verbatim>\<open>cpf.replace(/[^\d]+/g, '')\<close> deletes every code unit that is not a digit\<close>
  "isValidCpfDigits cpf =
     (let cpfWithoutDots = filter is_digit cpf
      in if length cpfWithoutDots \<noteq> 11 then False
         else if cpfWithoutDots \<in> set invalidCpfs then False
         else let firstDigit = calculateCpfDigit cpfWithoutDots 9;
                  secondDigit = calculateCpfDigit cpfWithoutDots 10
              in num_eq firstDigit (parseInt (char_at cpfWithoutDots 9))
               \<and> num_eq secondDigit (parseInt (char_at cpfWithoutDots 10)))"

section \<open>The registry\<close>

datatype UserType = customer | manager | admin

text \<open>
  Modelled from the spec: the class \<open>User\<close> (\<open>user.entity.ts\<close> is not among the sources).
  Its constructor takes, in this order, name, email, password, tax id, role, code,
  sequence number and the optional secondary password, and the service reads and writes
  the fields \<open>id\<close>, \<open>name\<close>, \<open>email\<close>, \<open>password\<close>, \<open>cpf\<close>, \<open>userType\<close> and
  \<open>superPassword\<close>. The record keeps each constructor argument in a field of its own.
  How a new object gets its \<open>id\<close> is not visible: \<open>createUser\<close> below takes the \<open>id\<close>
  of the object that the constructor yields as a parameter (\<open>None\<close> is \<open>undefined\<close>).
\<close>

record User =
  userId :: "jsstring option"
  name :: jsstring
  email :: jsstring
  password :: jsstring
  cpf :: jsstring
  userType :: UserType
  userCode :: jsstring
  seqNumber :: jsstring
  superPassword :: "jsstring option"

datatype error =
    InvalidEmail
  | InvalidPassword
  | InvalidSuperPassword
  | EmailInUse
  | CpfInUse
  | InvalidCpf
  | UserNotFound

fun message :: "error \<Rightarrow> string" where
  "message InvalidEmail = ''Invalid email''"
| "message InvalidPassword = ''Invalid password''"
| "message InvalidSuperPassword = ''Invalid super password''"
| "message EmailInUse = ''Email already in use''"
| "message CpfInUse = ''CPF already in use''"
| "message InvalidCpf = ''Invalid CPF''"
| "message UserNotFound = ''User not found''"

text \<open>
  The service holds one array of user objects. Every object in it was made by one
  \<open>createUser\<close> call and pushed once, so no object is in the array twice and writing to
  the fields of one element changes that position only: the array is a list of records.
\<close>

record UserService =
  users :: "User list"

definition truthy :: "jsstring option \<Rightarrow> bool" where
  \<comment> \<open>an optional string as a condition: neither \<open>undefined\<close> nor empty\<close>
  "truthy s = (case s of None \<Rightarrow> False | Some t \<Rightarrow> t \<noteq> [])"

definition isEmailInUse :: "UserService \<Rightarrow> jsstring \<Rightarrow> bool" where
  "isEmailInUse this e = list_ex (\<lambda>user. email user = e) (users this)"

definition isCpfInUse :: "UserService \<Rightarrow> jsstring \<Rightarrow> bool" where
  "isCpfInUse this c = list_ex (\<lambda>user. cpf user = c) (users this)"

definition validateUserData ::
  "UserService \<Rightarrow> jsstring \<Rightarrow> jsstring \<Rightarrow> jsstring option \<Rightarrow> jsstring \<Rightarrow> error + unit" where
  "validateUserData this e pw spw c =
     (if \<not> isValidEmail e then Inl InvalidEmail
      else if \<not> isValidPassword pw then Inl InvalidPassword
      else if (case spw of None \<Rightarrow> False | Some s \<Rightarrow> s \<noteq> [] \<and> \<not> isValidPassword s)
        then Inl InvalidSuperPassword
      else if isEmailInUse this e then Inl EmailInUse
      else if isCpfInUse this c then Inl CpfInUse
      else if \<not> isValidCpfFormat c \<or> \<not> isValidCpfDigits c then Inl InvalidCpf
      else Inr ())"

text \<open>
  An operation returns its result, or the error it throws, together with the service
  after the call. \<open>now\<close> is the value of \<open>Date.now()\<close>, an integer number of
  milliseconds.
\<close>

definition createUser ::
  "UserService \<Rightarrow> int \<Rightarrow> jsstring option \<Rightarrow>
   jsstring \<Rightarrow> jsstring \<Rightarrow> jsstring \<Rightarrow> jsstring \<Rightarrow> UserType \<Rightarrow> jsstring option \<Rightarrow>
   (error + User) \<times> UserService" where
  "createUser this now newId n e pw c ut spw =
     (case validateUserData this e pw spw c of
        Inl err \<Rightarrow> (Inl err, this)
      | Inr _ \<Rightarrow>
          let code = toString now @ toString (int (length (users this)));
              user = \<lparr> userId = newId, name = n, email = e, password = pw, cpf = c,
                       userType = ut, userCode = code,
                       seqNumber = toString (int (length (users this) + 1)),
                       superPassword = spw \<rparr>
          in (Inr user, this \<lparr> users := users this @ [user] \<rparr>))"

definition updateUser ::
  "UserService \<Rightarrow> jsstring \<Rightarrow>
   jsstring \<Rightarrow> jsstring \<Rightarrow> jsstring \<Rightarrow> jsstring \<Rightarrow> UserType \<Rightarrow> jsstring option \<Rightarrow>
   (error + User) \<times> UserService" where
  "updateUser this i n e pw c ut spw =
     (case validateUserData this e pw spw c of
        Inl err \<Rightarrow> (Inl err, this)
      | Inr _ \<Rightarrow>
          (case List.extract (\<lambda>user. userId user = Some i) (users this) of
             None \<Rightarrow> (Inl UserNotFound, this)
           | Some (before, user, after) \<Rightarrow>
               let user1 = user \<lparr> name := n, email := e, password := pw, cpf := c, userType := ut \<rparr>;
                   user2 = (if truthy spw then user1 \<lparr> superPassword := spw \<rparr> else user1)
               in (Inr user2, this \<lparr> users := before @ user2 # after \<rparr>)))"

definition deleteUser :: "UserService \<Rightarrow> jsstring \<Rightarrow> UserService" where
  "deleteUser this i = this \<lparr> users := filter (\<lambda>user. userId user \<noteq> Some i) (users this) \<rparr>"

definition getUserById :: "UserService \<Rightarrow> jsstring \<Rightarrow> error + User" where
  "getUserById this i =
     (case find (\<lambda>user. userId user = Some i) (users this) of
        None \<Rightarrow> Inl UserNotFound
      | Some user \<Rightarrow> Inr user)"

definition listUsers :: "UserService \<Rightarrow> User list" where
  "listUsers this = users this"

definition newService :: UserService where
  \<comment> \<open>\<^verbatim>\<open>private users: User[] = []\<close>\<close>
  "newService = \<lparr> users = [] \<rparr>"

text \<open>The states the service can be in: any sequence of calls on a new service.\<close>

inductive reachable :: "UserService \<Rightarrow> bool" where
  reachable_new: "reachable newService"
| reachable_create:
    "reachable this \<Longrightarrow> reachable (snd (createUser this now newId n e pw c ut spw))"
| reachable_update:
    "reachable this \<Longrightarrow> reachable (snd (updateUser this i n e pw c ut spw))"
| reachable_delete:
    "reachable this \<Longrightarrow> reachable (deleteUser this i)"

section \<open>The specification's reading of the gate and of the generated strings\<close>

text \<open>
  The validation gate as the specification words it: six checks in a fixed order, each
  with the error it reports, and the first check that fails determines the error.
\<close>

definition gate_checks ::
  "UserService \<Rightarrow> jsstring \<Rightarrow> jsstring \<Rightarrow> jsstring option \<Rightarrow> jsstring \<Rightarrow> (bool \<times> error) list" where
  "gate_checks this e pw spw c =
     [(isValidEmail e, InvalidEmail),
      (isValidPassword pw, InvalidPassword),
      (case spw of None \<Rightarrow> True | Some s \<Rightarrow> s = [] \<or> isValidPassword s, InvalidSuperPassword),
      (\<not> isEmailInUse this e, EmailInUse),
      (\<not> isCpfInUse this c, CpfInUse),
      (isValidCpfFormat c \<and> isValidCpfDigits c, InvalidCpf)]"

fun first_failure :: "(bool \<times> error) list \<Rightarrow> error + unit" where
  "first_failure [] = Inr ()"
| "first_failure ((ok, err) # rest) = (if ok then first_failure rest else Inl err)"

text \<open>The number a string of decimal digits denotes.\<close>

definition decimal_value :: "jsstring \<Rightarrow> nat" where
  "decimal_value s = foldl (\<lambda>a c. 10 * a + nat (digit_value c)) 0 s"

text \<open>No two records of the service share an email, and no two share a tax id.\<close>

definition unique_keys :: "UserService \<Rightarrow> bool" where
  "unique_keys this \<longleftrightarrow> distinct (map email (users this)) \<and> distinct (map cpf (users this))"

section \<open>Example data\<close>

definition userA :: User where
  "userA = \<lparr> userId = Some (js ''1''), name = js ''Ana'', email = js ''a@b.co'',
             password = js ''Abcdef1!'', cpf = js ''123.456.789-09'', userType = customer,
             userCode = js ''00'', seqNumber = js ''1'', superPassword = Some (js ''Zyxwvu9?'') \<rparr>"

definition userB :: User where
  "userB = \<lparr> userId = Some (js ''2''), name = js ''Bia'', email = js ''c@d.co'',
             password = js ''Abcdef1!'', cpf = js ''111.444.777-35'', userType = manager,
             userCode = js ''01'', seqNumber = js ''2'', superPassword = None \<rparr>"

definition userC :: User where
  "userC = \<lparr> userId = Some (js ''3''), name = js ''Cris'', email = js ''e@f.co'',
             password = js ''Abcdef1!'', cpf = js ''529.982.247-25'', userType = admin,
             userCode = js ''01'', seqNumber = js ''2'', superPassword = None \<rparr>"

definition serviceA :: UserService where
  "serviceA = \<lparr> users = [userA] \<rparr>"

definition serviceAB :: UserService where
  "serviceAB = \<lparr> users = [userA, userB] \<rparr>"

definition serviceBC :: UserService where
  "serviceBC = \<lparr> users = [userB, userC] \<rparr>"

section \<open>Regular expression matching\<close>

lemma matches_Never [simp]: "\<not> matches Never s"
  by (induction s) simp_all

lemma matches_Empty [simp]: "matches Empty s \<longleftrightarrow> s = []"
  by (cases s) simp_all

lemma matches_Cls [simp]: "matches (Cls p) s \<longleftrightarrow> (\<exists>c. s = [c] \<and> p c)"
  by (cases s) simp_all

lemma matches_Alt [simp]: "matches (Alt r1 r2) s \<longleftrightarrow> matches r1 s \<or> matches r2 s"
  by (induction s arbitrary: r1 r2) simp_all

lemma matches_Cat:
  "matches (Cat r1 r2) s \<longleftrightarrow> (\<exists>u v. s = u @ v \<and> matches r1 u \<and> matches r2 v)"
proof (induction s arbitrary: r1)
  case Nil
  show ?case by simp
next
  case (Cons c s)
  have split: "(\<exists>u v. c # s = u @ v \<and> matches r1 u \<and> matches r2 v) \<longleftrightarrow>
      (nullable r1 \<and> matches (deriv c r2) s)
      \<or> (\<exists>u v. s = u @ v \<and> matches (deriv c r1) u \<and> matches r2 v)"
    (is "?L \<longleftrightarrow> ?A \<or> ?B")
  proof
    assume ?L
    then obtain u v where uv: "c # s = u @ v" "matches r1 u" "matches r2 v" by blast
    show "?A \<or> ?B"
    proof (cases u)
      case Nil
      with uv show ?thesis by auto
    next
      case (Cons d u')
      with uv have "s = u' @ v" "matches (deriv c r1) u'" by auto
      with uv show ?thesis by blast
    qed
  next
    assume "?A \<or> ?B"
    then show ?L
    proof
      assume ?A
      then have "c # s = [] @ (c # s) \<and> matches r1 [] \<and> matches r2 (c # s)" by simp
      then show ?L by blast
    next
      assume ?B
      then obtain u v where "s = u @ v" "matches (deriv c r1) u" "matches r2 v" by blast
      then have "c # s = (c # u) @ v \<and> matches r1 (c # u) \<and> matches r2 v" by simp
      then show ?L by blast
    qed
  qed
  show ?case
    unfolding split by (auto simp: Cons.IH)
qed

lemma matches_Cls_Cat:
  "matches (Cat (Cls p) r) s \<longleftrightarrow> (\<exists>c t. s = c # t \<and> p c \<and> matches r t)"
proof -
  have "(\<exists>u v. s = u @ v \<and> (\<exists>c. u = [c] \<and> p c) \<and> matches r v) \<longleftrightarrow>
        (\<exists>c t. s = c # t \<and> p c \<and> matches r t)"
    by (metis append_Cons append_Nil)
  then show ?thesis by (simp add: matches_Cat)
qed

lemma matches_Star_Cls: "matches (Star (Cls p)) s \<longleftrightarrow> (\<forall>c\<in>set s. p c)"
proof (induction s)
  case Nil
  show ?case by simp
next
  case (Cons c s)
  have "matches (Star (Cls p)) (c # s) \<longleftrightarrow> p c \<and> matches (Star (Cls p)) s"
    by (auto simp: matches_Cat)
  with Cons show ?case by simp
qed

lemma matches_AtLeast_Cls:
  "matches (AtLeast n (Cls p)) s \<longleftrightarrow> n \<le> length s \<and> (\<forall>c\<in>set s. p c)"
proof (induction n arbitrary: s)
  case 0
  show ?case by (simp add: matches_Star_Cls)
next
  case (Suc n)
  show ?case
    by (auto simp: matches_Cls_Cat Suc.IH Suc_le_length_iff)
qed

lemma lookahead_iff: "lookahead r s \<longleftrightarrow> (\<exists>n\<le>length s. matches r (take n s))"
  unfolding lookahead_def list_ex_iff by (auto simp del: upt_Suc simp: less_Suc_eq_le)

lemma lookahead_dot_star_Cls:
  "lookahead (Cat (Star (Cls any_char)) (Cls q)) s \<longleftrightarrow>
     (\<exists>u c v. s = u @ c # v \<and> (\<forall>x\<in>set u. any_char x) \<and> q c)"
proof
  assume "lookahead (Cat (Star (Cls any_char)) (Cls q)) s"
  then obtain n u c where n: "n \<le> length s" "take n s = u @ [c]"
      "\<forall>x\<in>set u. any_char x" "q c"
    by (auto simp: lookahead_iff matches_Cat matches_Star_Cls)
  have "s = take n s @ drop n s" by simp
  with n have "s = u @ c # drop n s" by simp
  with n show "\<exists>u c v. s = u @ c # v \<and> (\<forall>x\<in>set u. any_char x) \<and> q c" by blast
next
  assume "\<exists>u c v. s = u @ c # v \<and> (\<forall>x\<in>set u. any_char x) \<and> q c"
  then obtain u c v where s: "s = u @ c # v" "\<forall>x\<in>set u. any_char x" "q c" by blast
  then have "Suc (length u) \<le> length s" "take (Suc (length u)) s = u @ [c]" by simp_all
  moreover have "matches (Cat (Star (Cls any_char)) (Cls q)) (u @ [c])"
    using s by (auto simp: matches_Cat matches_Star_Cls)
  ultimately show "lookahead (Cat (Star (Cls any_char)) (Cls q)) s"
    unfolding lookahead_iff by metis
qed

lemma password_char_not_line_terminator: "is_password_char c \<Longrightarrow> any_char c"
  by (auto simp: is_password_char_def any_char_def is_line_terminator_def is_upper_def
      is_lower_def is_digit_def is_symbol_def js_def)

lemma lookahead_password_chars:
  assumes "\<forall>c\<in>set s. is_password_char c"
  shows "lookahead (Cat (Star (Cls any_char)) (Cls q)) s \<longleftrightarrow> (\<exists>c\<in>set s. q c)"
proof
  assume "lookahead (Cat (Star (Cls any_char)) (Cls q)) s"
  then show "\<exists>c\<in>set s. q c" by (auto simp: lookahead_dot_star_Cls)
next
  assume "\<exists>c\<in>set s. q c"
  then obtain c where "c \<in> set s" "q c" by blast
  then obtain u v where uv: "s = u @ c # v" by (meson split_list)
  with assms have "\<forall>x\<in>set u. any_char x"
    by (auto intro: password_char_not_line_terminator)
  with uv \<open>q c\<close> show "lookahead (Cat (Star (Cls any_char)) (Cls q)) s"
    unfolding lookahead_dot_star_Cls by blast
qed

section \<open>Evaluated examples\<close>

lemma email_ex1: "isValidEmail (js ''a@b.co'')" by code_simp

lemma email_ex2: "isValidEmail (js ''c@d.co'')" by code_simp

lemma email_ex3: "isValidEmail (js ''e@f.co'')" by code_simp

lemma email_bad: "\<not> isValidEmail (js ''ab.co'')" by code_simp

lemma password_ex: "isValidPassword (js ''Abcdef1!'')" by code_simp

lemma password_bad: "\<not> isValidPassword (js ''abcdef1!'')" by code_simp

lemma cpf_ex1: "isValidCpfFormat (js ''123.456.789-09'') \<and> isValidCpfDigits (js ''123.456.789-09'')" by code_simp

lemma cpf_ex2: "isValidCpfFormat (js ''111.444.777-35'') \<and> isValidCpfDigits (js ''111.444.777-35'')" by code_simp

lemma cpf_ex3: "isValidCpfFormat (js ''529.982.247-25'') \<and> isValidCpfDigits (js ''529.982.247-25'')" by code_simp

lemma cpf_bad: "isValidCpfFormat (js ''123.456.789-00'') \<and> \<not> isValidCpfDigits (js ''123.456.789-00'')" by code_simp

lemma cpf_ex1_digits:
  "calculateCpfDigit (js ''12345678909'') 9 = Some 0"
  "calculateCpfDigit (js ''12345678909'') 10 = Some 9"
  by code_simp+

lemma cpf_same: "isValidCpfFormat (js ''111.111.111-11'') \<and> \<not> isValidCpfDigits (js ''111.111.111-11'')" by code_simp

section \<open>The gate and the write operations\<close>

lemma validateUserData_Inr_iff:
  "validateUserData this e pw spw c = Inr x \<longleftrightarrow>
     isValidEmail e \<and> isValidPassword pw
   \<and> (case spw of None \<Rightarrow> True | Some s \<Rightarrow> s = [] \<or> isValidPassword s)
   \<and> \<not> isEmailInUse this e \<and> \<not> isCpfInUse this c
   \<and> isValidCpfFormat c \<and> isValidCpfDigits c"
  by (auto simp: validateUserData_def split: option.splits)

lemma extract_SomeD:
  "List.extract P xs = Some (ys, y, zs) \<Longrightarrow> xs = ys @ y # zs \<and> P y \<and> (\<forall>x\<in>set ys. \<not> P x)"
  by (auto simp: extract_Some_iff)

lemma extract_None_iff': "List.extract P xs = None \<longleftrightarrow> (\<forall>x\<in>set xs. \<not> P x)"
  by (auto simp: extract_None_iff)

lemma createUser_error:
  "validateUserData this e pw spw c = Inl err \<Longrightarrow>
     createUser this now newId n e pw c ut spw = (Inl err, this)"
  by (simp add: createUser_def)

lemma createUser_ok:
  "validateUserData this e pw spw c = Inr x \<Longrightarrow>
     createUser this now newId n e pw c ut spw =
       (Inr \<lparr> userId = newId, name = n, email = e, password = pw, cpf = c, userType = ut,
               userCode = toString now @ toString (int (length (users this))),
               seqNumber = toString (int (length (users this) + 1)),
               superPassword = spw \<rparr>,
        this \<lparr> users := users this @
          [\<lparr> userId = newId, name = n, email = e, password = pw, cpf = c, userType = ut,
             userCode = toString now @ toString (int (length (users this))),
             seqNumber = toString (int (length (users this) + 1)),
             superPassword = spw \<rparr>] \<rparr>)"
  by (simp add: createUser_def Let_def)

lemma updateUser_error:
  "validateUserData this e pw spw c = Inl err \<Longrightarrow>
     updateUser this i n e pw c ut spw = (Inl err, this)"
  by (simp add: updateUser_def)

lemma updateUser_not_found:
  assumes "validateUserData this e pw spw c = Inr x"
    and "\<forall>u\<in>set (users this). userId u \<noteq> Some i"
  shows "updateUser this i n e pw c ut spw = (Inl UserNotFound, this)"
proof -
  have "List.extract (\<lambda>user. userId user = Some i) (users this) = None"
    using assms(2) by (simp add: extract_None_iff')
  with assms(1) show ?thesis
    by (simp add: updateUser_def)
qed

lemma updateUser_found:
  assumes "validateUserData this e pw spw c = Inr x"
    and "users this = before @ u # after" "userId u = Some i"
    and "\<forall>y\<in>set before. userId y \<noteq> Some i"
  shows "updateUser this i n e pw c ut spw =
     (Inr (u \<lparr> name := n, email := e, password := pw, cpf := c, userType := ut,
              superPassword := (if truthy spw then spw else superPassword u) \<rparr>),
      this \<lparr> users := before @
         u \<lparr> name := n, email := e, password := pw, cpf := c, userType := ut,
              superPassword := (if truthy spw then spw else superPassword u) \<rparr> # after \<rparr>)"
proof -
  have "List.extract (\<lambda>user. userId user = Some i) (users this) = Some (before, u, after)"
    using assms by (simp add: extract_Some_iff)
  with assms(1) show ?thesis
    by (simp add: updateUser_def Let_def)
qed

lemma updateUser_cases:
  obtains (invalid) err where "validateUserData this e pw spw c = Inl err"
      "updateUser this i n e pw c ut spw = (Inl err, this)"
  | (not_found) "validateUserData this e pw spw c = Inr ()"
      "\<forall>u\<in>set (users this). userId u \<noteq> Some i"
      "updateUser this i n e pw c ut spw = (Inl UserNotFound, this)"
  | (found) before u after where "validateUserData this e pw spw c = Inr ()"
      "users this = before @ u # after" "userId u = Some i"
      "\<forall>y\<in>set before. userId y \<noteq> Some i"
      "updateUser this i n e pw c ut spw =
        (Inr (u \<lparr> name := n, email := e, password := pw, cpf := c, userType := ut,
                 superPassword := (if truthy spw then spw else superPassword u) \<rparr>),
         this \<lparr> users := before @
            u \<lparr> name := n, email := e, password := pw, cpf := c, userType := ut,
                 superPassword := (if truthy spw then spw else superPassword u) \<rparr> # after \<rparr>)"
proof (cases "validateUserData this e pw spw c")
  case (Inl err)
  then show ?thesis using invalid updateUser_error by blast
next
  case (Inr x)
  then have v: "validateUserData this e pw spw c = Inr ()" by simp
  show ?thesis
  proof (cases "List.extract (\<lambda>user. userId user = Some i) (users this)")
    case None
    then have "\<forall>u\<in>set (users this). userId u \<noteq> Some i"
      by (simp add: extract_None_iff')
    with v show ?thesis using not_found updateUser_not_found by blast
  next
    case (Some t)
    then obtain before u after where "t = (before, u, after)" by (cases t) auto
    with Some have "users this = before @ u # after \<and> userId u = Some i
        \<and> (\<forall>y\<in>set before. userId y \<noteq> Some i)"
      using extract_SomeD [of "\<lambda>user. userId user = Some i" "users this" before u after]
      by simp
    with v show ?thesis using found updateUser_found by blast
  qed
qed

section \<open>Decimal strings\<close>

lemma digit_char:
  assumes "d < 10"
  shows "is_digit (0x30 + of_nat d)" and "digit_value (0x30 + of_nat d) = int d"
proof -
  from assms have "d \<in> {0, 1, 2, 3, 4, 5, 6, 7, 8, 9}" by auto
  then show "is_digit (0x30 + of_nat d)" and "digit_value (0x30 + of_nat d) = int d"
    by (auto simp: is_digit_def digit_value_def)
qed

lemma decimal_value_snoc:
  "decimal_value (s @ [c]) = 10 * decimal_value s + nat (digit_value c)"
  by (simp add: decimal_value_def)

lemma digits_of_decimal:
  "digits_of k \<noteq> [] \<and> list_all is_digit (digits_of k) \<and> decimal_value (digits_of k) = k"
proof (induction k rule: digits_of.induct)
  case (1 k)
  show ?case
  proof (cases "k < 10")
    case True
    then show ?thesis
      by (simp add: digits_of.simps [of k] digit_char decimal_value_def)
  next
    case False
    then have "k mod 10 < 10" by simp
    with False "1.IH" show ?thesis
      by (simp add: digits_of.simps [of k] digit_char decimal_value_snoc)
  qed
qed

lemma toString_nat: "toString (int k) = digits_of k"
  by (simp add: toString_def)

lemma toString_nonempty: "toString x \<noteq> []"
  using digits_of_decimal by (simp add: toString_def)

section \<open>Uniqueness of emails and tax ids\<close>

lemma in_use_iff:
  "isEmailInUse this e \<longleftrightarrow> e \<in> email ` set (users this)"
  "isCpfInUse this c \<longleftrightarrow> c \<in> cpf ` set (users this)"
  by (auto simp: isEmailInUse_def isCpfInUse_def list_ex_iff)

lemma createUser_unique_keys:
  assumes "unique_keys this"
  shows "unique_keys (snd (createUser this now newId n e pw c ut spw))"
proof (cases "validateUserData this e pw spw c")
  case (Inl err)
  with assms show ?thesis by (simp add: createUser_error)
next
  case (Inr x)
  then have "e \<notin> email ` set (users this)" "c \<notin> cpf ` set (users this)"
    by (simp_all add: validateUserData_Inr_iff in_use_iff)
  with assms Inr show ?thesis
    by (simp add: createUser_ok unique_keys_def)
qed

lemma updateUser_unique_keys:
  assumes "unique_keys this"
  shows "unique_keys (snd (updateUser this i n e pw c ut spw))"
proof (cases rule: updateUser_cases [of this e pw spw c i n ut])
  case (invalid err)
  with assms show ?thesis by simp
next
  case not_found
  with assms show ?thesis by simp
next
  case (found before u after)
  from found(1) have "e \<notin> email ` set (users this)" "c \<notin> cpf ` set (users this)"
    by (simp_all add: validateUserData_Inr_iff in_use_iff)
  with assms found(2) show ?thesis
    unfolding found(5) by (auto simp: unique_keys_def)
qed

lemma deleteUser_unique_keys:
  "unique_keys this \<Longrightarrow> unique_keys (deleteUser this i)"
  by (simp add: unique_keys_def deleteUser_def distinct_map_filter)

lemma reachable_unique_keys: "reachable this \<Longrightarrow> unique_keys this"
proof (induction rule: reachable.induct)
  case reachable_new
  show ?case by (simp add: unique_keys_def newService_def)
next
  case (reachable_create this now newId n e pw c ut spw)
  then show ?case by (simp add: createUser_unique_keys)
next
  case (reachable_update this i n e pw c ut spw)
  then show ?case by (simp add: updateUser_unique_keys)
next
  case (reachable_delete this i)
  then show ?case by (simp add: deleteUser_unique_keys)
qed

section \<open>Example states\<close>

lemma of_char_word_eq_iff: "(of_char a :: jschar) = of_char b \<longleftrightarrow> a = b"
proof
  assume eq: "(of_char a :: jschar) = of_char b"
  have "(of_char c :: nat) < 2 ^ 16" for c
    by (rule less_trans [OF nat_of_char_less_256]) simp
  then have small: "(of_char c :: nat) mod 2 ^ 16 = of_char c" for c
    by (rule mod_less)
  have "(of_char c :: jschar) = of_nat (of_char c)" for c
    by (simp add: of_nat_of_char)
  with eq have "(of_nat (of_char a) :: jschar) = of_nat (of_char b)" by simp
  then have "(of_char a :: nat) mod 2 ^ 16 = of_char b mod 2 ^ 16"
    by (simp add: word_of_nat_eq_iff take_bit_eq_mod)
  then have "(of_char a :: nat) = of_char b"
    by (simp only: small)
  then show "a = b" by simp
qed simp

lemma js_eq_iff [simp]: "js s = js t \<longleftrightarrow> s = t"
proof -
  have "inj (of_char :: char \<Rightarrow> jschar)"
    by (simp add: inj_def of_char_word_eq_iff)
  then show ?thesis
    by (simp add: js_def)
qed

lemma js_Nil_iff [simp]: "js s = [] \<longleftrightarrow> s = []"
  by (simp add: js_def)

lemma password_ex2: "isValidPassword (js ''Zyxwvu9?'')" by code_simp

lemma toString_small:
  "toString 0 = js ''0''" "toString 1 = js ''1''" "toString 2 = js ''2''"
  by (simp_all add: toString_def digits_of.simps js_def)

lemma serviceA_created:
  "createUser newService 0 (Some (js ''1'')) (js ''Ana'') (js ''a@b.co'') (js ''Abcdef1!'')
     (js ''123.456.789-09'') customer (Some (js ''Zyxwvu9?'')) = (Inr userA, serviceA)"
proof -
  have "validateUserData newService (js ''a@b.co'') (js ''Abcdef1!'') (Some (js ''Zyxwvu9?''))
      (js ''123.456.789-09'') = Inr ()"
    by (simp add: validateUserData_Inr_iff email_ex1 password_ex password_ex2 cpf_ex1
        in_use_iff newService_def)
  then show ?thesis
    by (simp add: createUser_ok newService_def userA_def serviceA_def toString_small js_def)
qed

lemma serviceAB_created:
  "createUser serviceA 0 (Some (js ''2'')) (js ''Bia'') (js ''c@d.co'') (js ''Abcdef1!'')
     (js ''111.444.777-35'') manager None = (Inr userB, serviceAB)"
proof -
  have "validateUserData serviceA (js ''c@d.co'') (js ''Abcdef1!'') None
      (js ''111.444.777-35'') = Inr ()"
    by (simp add: validateUserData_Inr_iff email_ex2 password_ex cpf_ex2
        in_use_iff serviceA_def userA_def)
  then show ?thesis
    by (simp add: createUser_ok userB_def serviceA_def serviceAB_def toString_small js_def)
qed

lemma serviceAB_deleted:
  "deleteUser serviceAB (js ''1'') = \<lparr> users = [userB] \<rparr>"
  by (simp add: deleteUser_def serviceAB_def userA_def userB_def)

lemma serviceBC_created:
  "createUser \<lparr> users = [userB] \<rparr> 0 (Some (js ''3'')) (js ''Cris'') (js ''e@f.co'') (js ''Abcdef1!'')
     (js ''529.982.247-25'') admin None = (Inr userC, serviceBC)"
proof -
  have "validateUserData \<lparr> users = [userB] \<rparr> (js ''e@f.co'') (js ''Abcdef1!'') None
      (js ''529.982.247-25'') = Inr ()"
    by (simp add: validateUserData_Inr_iff email_ex3 password_ex cpf_ex3
        in_use_iff userB_def)
  then show ?thesis
    by (simp add: createUser_ok userC_def serviceBC_def toString_small js_def)
qed

lemma reachable_serviceA: "reachable serviceA"
  using reachable_create [OF reachable_new, of 0 "Some (js ''1'')" "js ''Ana''" "js ''a@b.co''"
      "js ''Abcdef1!''" "js ''123.456.789-09''" customer "Some (js ''Zyxwvu9?'')"]
  by (simp add: serviceA_created)

lemma reachable_serviceAB: "reachable serviceAB"
  using reachable_create [OF reachable_serviceA, of 0 "Some (js ''2'')" "js ''Bia''" "js ''c@d.co''"
      "js ''Abcdef1!''" "js ''111.444.777-35''" manager None]
  by (simp add: serviceAB_created)

lemma reachable_serviceBC: "reachable serviceBC"
proof -
  have "reachable \<lparr> users = [userB] \<rparr>"
    using reachable_delete [OF reachable_serviceAB, of "js ''1''"]
    by (simp add: serviceAB_deleted)
  from reachable_create [OF this, of 0 "Some (js ''3'')" "js ''Cris''" "js ''e@f.co''"
      "js ''Abcdef1!''" "js ''529.982.247-25''" admin None]
  show ?thesis by (simp add: serviceBC_created)
qed

section \<open>The claims\<close>

subsection \<open>Tax id examples\<close>

text \<open>
  Claim C1, as the code has it. Both \<^verbatim>\<open>123.456.789-09\<close> and \<^verbatim>\<open>111.444.777-35\<close> pass
  the structural check and the checksum check: the check digits of \<^verbatim>\<open>123456789\<close> are
  \<open>0\<close> and \<open>9\<close>. So \<open>createUser\<close> with \<^verbatim>\<open>123.456.789-09\<close> as tax id succeeds when the
  other fields are valid and neither the email nor the tax id is in use. A string that is
  structurally valid and fails the checksum is \<^verbatim>\<open>123.456.789-00\<close>: with it \<open>createUser\<close>
  fails with \<open>InvalidCpf\<close>.
\<close>

theorem cpf_checksum_examples:
  assumes "isValidEmail e" and "isValidPassword pw"
    and "case spw of None \<Rightarrow> True | Some s \<Rightarrow> s = [] \<or> isValidPassword s"
    and "\<not> isEmailInUse this e"
  shows "isValidCpfFormat (js ''123.456.789-09'') \<and> isValidCpfDigits (js ''123.456.789-09'')
    \<and> isValidCpfFormat (js ''111.444.777-35'') \<and> isValidCpfDigits (js ''111.444.777-35'')
    \<and> (\<not> isCpfInUse this (js ''123.456.789-09'') \<longrightarrow>
          (\<exists>user. fst (createUser this now newId n e pw (js ''123.456.789-09'') ut spw) = Inr user))
    \<and> isValidCpfFormat (js ''123.456.789-00'') \<and> \<not> isValidCpfDigits (js ''123.456.789-00'')
    \<and> (\<not> isCpfInUse this (js ''123.456.789-00'') \<longrightarrow>
          fst (createUser this now newId n e pw (js ''123.456.789-00'') ut spw) = Inl InvalidCpf)"
proof -
  have ok: "\<not> isCpfInUse this (js ''123.456.789-09'') \<Longrightarrow>
      validateUserData this e pw spw (js ''123.456.789-09'') = Inr ()"
    using assms by (simp add: validateUserData_Inr_iff cpf_ex1)
  have bad: "\<not> isCpfInUse this (js ''123.456.789-00'') \<Longrightarrow>
      validateUserData this e pw spw (js ''123.456.789-00'') = Inl InvalidCpf"
    using assms cpf_bad by (auto simp: validateUserData_def split: option.splits)
  show ?thesis
    using ok bad by (auto simp: cpf_ex1 cpf_ex2 cpf_bad createUser_ok createUser_error)
qed

theorem cpf_checksum_examples_witness:
  "isValidCpfFormat (js ''123.456.789-09'') \<and> isValidCpfDigits (js ''123.456.789-09'')
 \<and> isValidCpfFormat (js ''111.444.777-35'') \<and> isValidCpfDigits (js ''111.444.777-35'')
 \<and> (\<exists>user. fst (createUser newService 0 None (js ''Ana'') (js ''a@b.co'') (js ''Abcdef1!'')
        (js ''123.456.789-09'') customer None) = Inr user)
 \<and> fst (createUser newService 0 None (js ''Ana'') (js ''a@b.co'') (js ''Abcdef1!'')
        (js ''123.456.789-00'') customer None) = Inl InvalidCpf"
proof -
  have h: "isValidEmail (js ''a@b.co'')" "isValidPassword (js ''Abcdef1!'')"
      "case None :: jsstring option of None \<Rightarrow> True | Some s \<Rightarrow> s = [] \<or> isValidPassword s"
      "\<not> isEmailInUse newService (js ''a@b.co'')"
    by (simp_all add: email_ex1 password_ex in_use_iff newService_def)
  have free: "\<not> isCpfInUse newService (js ''123.456.789-09'')"
      "\<not> isCpfInUse newService (js ''123.456.789-00'')"
    by (simp_all add: in_use_iff newService_def)
  from cpf_checksum_examples [OF h, of 0 None "js ''Ana''" customer] free
  show ?thesis by blast
qed

text \<open>
  Claim C1 as stated says that \<^verbatim>\<open>123.456.789-09\<close> is rejected. It passes both
  checks, and on a new service, with valid other fields, \<open>createUser\<close> does not fail
  with \<open>InvalidCpf\<close>.
\<close>

theorem cpf_123_456_789_09_accepted:
  "isValidCpfFormat (js ''123.456.789-09'') \<and> isValidCpfDigits (js ''123.456.789-09'')
 \<and> fst (createUser newService 0 None (js ''Ana'') (js ''a@b.co'') (js ''Abcdef1!'')
        (js ''123.456.789-09'') customer None) \<noteq> Inl InvalidCpf"
proof -
  have "validateUserData newService (js ''a@b.co'') (js ''Abcdef1!'') None
      (js ''123.456.789-09'') = Inr ()"
    by (simp add: validateUserData_Inr_iff email_ex1 password_ex cpf_ex1 in_use_iff
        newService_def)
  then show ?thesis
    by (simp add: createUser_ok cpf_ex1)
qed

subsection \<open>Update of an unknown id\<close>

text \<open>
  Claim C2, as the code has it. \<open>updateUser\<close> runs the gate before it looks the id up.
  For an id that no record has, the call fails and leaves the service as it was: with
  the gate's error when the gate rejects the fields, with \<open>UserNotFound\<close> when the gate
  accepts them.
\<close>

theorem updateUser_unknown_id:
  assumes "\<forall>u\<in>set (users this). userId u \<noteq> Some i"
  shows "updateUser this i n e pw c ut spw =
     (case validateUserData this e pw spw c of
        Inl err \<Rightarrow> (Inl err, this)
      | Inr _ \<Rightarrow> (Inl UserNotFound, this))"
  using assms
  by (cases "validateUserData this e pw spw c")
     (simp_all add: updateUser_error updateUser_not_found)

theorem updateUser_unknown_id_witness:
  "users newService = []
 \<and> updateUser newService (js ''1'') (js ''Ana'') (js ''a@b.co'') (js ''Abcdef1!'')
      (js ''123.456.789-09'') customer None = (Inl UserNotFound, newService)
 \<and> updateUser newService (js ''1'') (js ''Ana'') (js ''ab.co'') (js ''Abcdef1!'')
      (js ''123.456.789-09'') customer None = (Inl InvalidEmail, newService)"
proof -
  have e: "users newService = []"
    by (simp add: newService_def)
  then have h: "\<forall>u\<in>set (users newService). userId u \<noteq> Some (js ''1'')"
    by simp
  have v1: "validateUserData newService (js ''a@b.co'') (js ''Abcdef1!'') None
      (js ''123.456.789-09'') = Inr ()"
    by (simp add: validateUserData_Inr_iff email_ex1 password_ex cpf_ex1 in_use_iff
        newService_def)
  have v2: "validateUserData newService (js ''ab.co'') (js ''Abcdef1!'') None
      (js ''123.456.789-09'') = Inl InvalidEmail"
    by (simp add: validateUserData_def email_bad)
  from updateUser_unknown_id [OF h, of "js ''Ana''" "js ''a@b.co''" "js ''Abcdef1!''"
      "js ''123.456.789-09''" customer None]
    updateUser_unknown_id [OF h, of "js ''Ana''" "js ''ab.co''" "js ''Abcdef1!''"
      "js ''123.456.789-09''" customer None]
  show ?thesis
    by (simp add: v1 v2 e)
qed

text \<open>
  Claim C2 as stated says \<open>UserNotFound\<close> whatever the fields are. On a new service,
  which has no record at all, an update with a malformed email fails with
  \<open>InvalidEmail\<close>.
\<close>

theorem updateUser_unknown_id_invalid_email:
  "users newService = []
 \<and> fst (updateUser newService (js ''1'') (js ''Ana'') (js ''ab.co'') (js ''Abcdef1!'')
      (js ''123.456.789-09'') customer None) = Inl InvalidEmail
 \<and> fst (updateUser newService (js ''1'') (js ''Ana'') (js ''ab.co'') (js ''Abcdef1!'')
      (js ''123.456.789-09'') customer None) \<noteq> Inl UserNotFound"
proof -
  have "validateUserData newService (js ''ab.co'') (js ''Abcdef1!'') None
      (js ''123.456.789-09'') = Inl InvalidEmail"
    by (simp add: validateUserData_def email_bad)
  then show ?thesis
    by (simp add: updateUser_error newService_def)
qed

subsection \<open>Update with the record's own email or tax id\<close>

text \<open>
  Claim C3. Let \<open>u\<close> be a record of the service, the password valid and the secondary
  password absent, empty or valid. Then \<open>updateUser\<close>, for every id and so for the id of
  \<open>u\<close>, fails with \<open>EmailInUse\<close> when it is given the email of \<open>u\<close> (a well-formed
  one), and fails with \<open>CpfInUse\<close> when it is given the tax id of \<open>u\<close> with a
  well-formed email that no record has. The service is unchanged: the uniqueness checks
  do not leave out the record being updated.
\<close>

theorem updateUser_own_email_or_cpf:
  assumes "u \<in> set (users this)"
    and "isValidPassword pw"
    and "case spw of None \<Rightarrow> True | Some s \<Rightarrow> s = [] \<or> isValidPassword s"
  shows "(isValidEmail (email u) \<longrightarrow>
            updateUser this i n (email u) pw c ut spw = (Inl EmailInUse, this))
       \<and> (isValidEmail e \<and> \<not> isEmailInUse this e \<longrightarrow>
            updateUser this i n e pw (cpf u) ut spw = (Inl CpfInUse, this))"
proof -
  have inuse: "isEmailInUse this (email u)" "isCpfInUse this (cpf u)"
    using assms(1) by (auto simp: isEmailInUse_def isCpfInUse_def list_ex_iff)
  have "isValidEmail (email u) \<Longrightarrow> validateUserData this (email u) pw spw c = Inl EmailInUse"
    using assms inuse by (auto simp: validateUserData_def split: option.splits)
  moreover have "isValidEmail e \<Longrightarrow> \<not> isEmailInUse this e \<Longrightarrow>
      validateUserData this e pw spw (cpf u) = Inl CpfInUse"
    using assms inuse by (auto simp: validateUserData_def split: option.splits)
  ultimately show ?thesis
    by (simp add: updateUser_error)
qed

theorem updateUser_own_email_or_cpf_witness:
  "userA \<in> set (users serviceA) \<and> userId userA = Some (js ''1'')
 \<and> updateUser serviceA (js ''1'') (js ''Ana'') (email userA) (js ''Abcdef1!'')
      (js ''111.444.777-35'') customer None = (Inl EmailInUse, serviceA)
 \<and> updateUser serviceA (js ''1'') (js ''Ana'') (js ''c@d.co'') (js ''Abcdef1!'')
      (cpf userA) customer None = (Inl CpfInUse, serviceA)"
proof -
  have h: "userA \<in> set (users serviceA)" "isValidPassword (js ''Abcdef1!'')"
      "case None :: jsstring option of None \<Rightarrow> True | Some s \<Rightarrow> s = [] \<or> isValidPassword s"
    by (simp_all add: serviceA_def password_ex)
  have e: "isValidEmail (email userA)"
      "isValidEmail (js ''c@d.co'') \<and> \<not> isEmailInUse serviceA (js ''c@d.co'')"
    by (simp_all add: userA_def serviceA_def email_ex1 email_ex2 in_use_iff)
  from updateUser_own_email_or_cpf [OF h, of "js ''1''" "js ''Ana''" "js ''111.444.777-35''"
      customer "js ''c@d.co''"] e
  show ?thesis
    by (simp add: serviceA_def userA_def)
qed

subsection \<open>The order of the checks\<close>

text \<open>
  Claim C4. \<open>validateUserData\<close> reports the error of the first failing check of the
  list: email shape, password, secondary password (when given and not empty), email in
  use, tax id in use, tax id format and checksum. In particular, when the tax id is in
  use and malformed, the error is never \<open>InvalidCpf\<close>, and it is \<open>CpfInUse\<close> as soon
  as the four checks before it pass. (The checks have no effects, so whether a later
  check is evaluated cannot be observed.)
\<close>

theorem validateUserData_first_failure:
  "validateUserData this e pw spw c = first_failure (gate_checks this e pw spw c)
   \<and> (isCpfInUse this c \<and> \<not> (isValidCpfFormat c \<and> isValidCpfDigits c) \<longrightarrow>
        validateUserData this e pw spw c \<noteq> Inl InvalidCpf
      \<and> (first_failure (take 4 (gate_checks this e pw spw c)) = Inr () \<longrightarrow>
           validateUserData this e pw spw c = Inl CpfInUse))"
  by (auto simp: validateUserData_def gate_checks_def split: option.splits)

theorem validateUserData_first_failure_witness:
  "isCpfInUse \<lparr> users = [userA \<lparr> cpf := js ''123'' \<rparr>] \<rparr> (js ''123'')
 \<and> \<not> isValidCpfFormat (js ''123'')
 \<and> validateUserData \<lparr> users = [userA \<lparr> cpf := js ''123'' \<rparr>] \<rparr>
      (js ''c@d.co'') (js ''Abcdef1!'') None (js ''123'') = Inl CpfInUse"
proof -
  have bad: "\<not> isValidCpfFormat (js ''123'')"
    by code_simp
  have h: "isCpfInUse \<lparr> users = [userA \<lparr> cpf := js ''123'' \<rparr>] \<rparr> (js ''123'')"
    by (simp add: in_use_iff)
  have first: "first_failure (take 4 (gate_checks \<lparr> users = [userA \<lparr> cpf := js ''123'' \<rparr>] \<rparr>
      (js ''c@d.co'') (js ''Abcdef1!'') None (js ''123''))) = Inr ()"
    by (simp add: gate_checks_def email_ex2 password_ex in_use_iff userA_def)
  from validateUserData_first_failure [of "\<lparr> users = [userA \<lparr> cpf := js ''123'' \<rparr>] \<rparr>"
      "js ''c@d.co''" "js ''Abcdef1!''" None "js ''123''"] h bad first
  show ?thesis by blast
qed

subsection \<open>A failed write changes nothing\<close>

text \<open>
  Claim C5. When \<open>createUser\<close> or \<open>updateUser\<close> throws an error, the service after the
  call is the service before it: no record is added, removed or changed.
\<close>

theorem failed_write_leaves_users:
  "(fst (createUser this now newId n e pw c ut spw) = Inl err \<longrightarrow>
      snd (createUser this now newId n e pw c ut spw) = this)
 \<and> (fst (updateUser this i n e pw c ut spw) = Inl err \<longrightarrow>
      snd (updateUser this i n e pw c ut spw) = this)"
proof
  show "fst (createUser this now newId n e pw c ut spw) = Inl err \<longrightarrow>
      snd (createUser this now newId n e pw c ut spw) = this"
    by (cases "validateUserData this e pw spw c") (simp_all add: createUser_error createUser_ok)
  show "fst (updateUser this i n e pw c ut spw) = Inl err \<longrightarrow>
      snd (updateUser this i n e pw c ut spw) = this"
    by (cases rule: updateUser_cases [of this e pw spw c i n ut]) simp_all
qed

theorem failed_write_leaves_users_witness:
  "fst (createUser serviceA 0 None (js ''Bia'') (js ''a@b.co'') (js ''Abcdef1!'')
      (js ''111.444.777-35'') manager None) = Inl EmailInUse
 \<and> snd (createUser serviceA 0 None (js ''Bia'') (js ''a@b.co'') (js ''Abcdef1!'')
      (js ''111.444.777-35'') manager None) = serviceA
 \<and> fst (updateUser serviceA (js ''7'') (js ''Bia'') (js ''c@d.co'') (js ''Abcdef1!'')
      (js ''111.444.777-35'') manager None) = Inl UserNotFound
 \<and> snd (updateUser serviceA (js ''7'') (js ''Bia'') (js ''c@d.co'') (js ''Abcdef1!'')
      (js ''111.444.777-35'') manager None) = serviceA"
proof -
  have "validateUserData serviceA (js ''a@b.co'') (js ''Abcdef1!'') None
      (js ''111.444.777-35'') = Inl EmailInUse"
    by (simp add: validateUserData_def email_ex1 password_ex in_use_iff serviceA_def userA_def)
  then have c: "fst (createUser serviceA 0 None (js ''Bia'') (js ''a@b.co'') (js ''Abcdef1!'')
      (js ''111.444.777-35'') manager None) = Inl EmailInUse"
    by (simp add: createUser_error)
  have "validateUserData serviceA (js ''c@d.co'') (js ''Abcdef1!'') None
      (js ''111.444.777-35'') = Inr ()"
    by (simp add: validateUserData_Inr_iff email_ex2 password_ex cpf_ex2 in_use_iff
        serviceA_def userA_def)
  moreover have "\<forall>u\<in>set (users serviceA). userId u \<noteq> Some (js ''7'')"
    by (simp add: serviceA_def userA_def)
  ultimately have u: "fst (updateUser serviceA (js ''7'') (js ''Bia'') (js ''c@d.co'')
      (js ''Abcdef1!'') (js ''111.444.777-35'') manager None) = Inl UserNotFound"
    by (simp add: updateUser_not_found)
  from failed_write_leaves_users [where this = serviceA and now = 0 and newId = None
      and n = "js ''Bia''" and e = "js ''a@b.co''" and pw = "js ''Abcdef1!''"
      and c = "js ''111.444.777-35''" and ut = manager and spw = None and err = EmailInUse]
    failed_write_leaves_users [where this = serviceA and i = "js ''7''"
      and n = "js ''Bia''" and e = "js ''c@d.co''" and pw = "js ''Abcdef1!''"
      and c = "js ''111.444.777-35''" and ut = manager and spw = None and err = UserNotFound]
    c u
  show ?thesis by blast
qed

subsection \<open>Emails and tax ids stay unique\<close>

text \<open>
  Claim C6. In every state reached from a new service by calls of \<open>createUser\<close>,
  \<open>updateUser\<close> and \<open>deleteUser\<close>, two records at different positions of the array
  differ in their email and in their tax id.
\<close>

theorem reachable_unique_email_cpf:
  assumes "reachable this"
  shows "\<forall>i<length (users this). \<forall>j<length (users this). i \<noteq> j \<longrightarrow>
      email (users this ! i) \<noteq> email (users this ! j)
    \<and> cpf (users this ! i) \<noteq> cpf (users this ! j)"
proof -
  from assms have "distinct (map email (users this))" "distinct (map cpf (users this))"
    using reachable_unique_keys by (simp_all add: unique_keys_def)
  then show ?thesis
    by (simp add: distinct_conv_nth)
qed

theorem reachable_unique_email_cpf_witness:
  "reachable serviceAB \<and> length (users serviceAB) = 2
 \<and> email (users serviceAB ! 0) \<noteq> email (users serviceAB ! 1)
 \<and> cpf (users serviceAB ! 0) \<noteq> cpf (users serviceAB ! 1)"
proof -
  have len: "length (users serviceAB) = 2"
    by (simp add: serviceAB_def)
  from reachable_unique_email_cpf [OF reachable_serviceAB, rule_format, of 0 1] len
  have "email (users serviceAB ! 0) \<noteq> email (users serviceAB ! 1)
      \<and> cpf (users serviceAB ! 0) \<noteq> cpf (users serviceAB ! 1)"
    by simp
  with len reachable_serviceAB show ?thesis by simp
qed

subsection \<open>A valid create\<close>

text \<open>
  Claim C7. When the email is well-formed, the password valid, the secondary password
  absent, empty or valid, the tax id valid in format and checksum, and neither the email
  nor the tax id in use, \<open>createUser\<close> returns a record and appends exactly this record
  at the end of the array. The record holds the arguments; its sequence number is the
  decimal string of the prior number of records plus one, its code is the timestamp's
  decimal string followed by that of the prior number of records, and neither is empty.
\<close>

theorem createUser_valid:
  assumes "isValidEmail e" and "isValidPassword pw"
    and "case spw of None \<Rightarrow> True | Some s \<Rightarrow> s = [] \<or> isValidPassword s"
    and "isValidCpfFormat c" and "isValidCpfDigits c"
    and "\<not> isEmailInUse this e" and "\<not> isCpfInUse this c"
  shows "\<exists>user.
      createUser this now newId n e pw c ut spw = (Inr user, this \<lparr> users := users this @ [user] \<rparr>)
    \<and> name user = n \<and> email user = e \<and> password user = pw \<and> cpf user = c
    \<and> userType user = ut \<and> superPassword user = spw
    \<and> seqNumber user = toString (int (length (users this) + 1))
    \<and> list_all is_digit (seqNumber user)
    \<and> decimal_value (seqNumber user) = length (users this) + 1
    \<and> userCode user = toString now @ toString (int (length (users this)))
    \<and> seqNumber user \<noteq> [] \<and> userCode user \<noteq> []"
proof -
  have "validateUserData this e pw spw c = Inr ()"
    using assms by (simp add: validateUserData_Inr_iff)
  then show ?thesis
    using digits_of_decimal [of "Suc (length (users this))"]
    by (simp add: createUser_ok toString_nonempty toString_nat del: of_nat_Suc)
qed

theorem createUser_valid_witness:
  "createUser serviceA 0 (Some (js ''2'')) (js ''Bia'') (js ''c@d.co'') (js ''Abcdef1!'')
     (js ''111.444.777-35'') manager None = (Inr userB, serviceA \<lparr> users := users serviceA @ [userB] \<rparr>)
 \<and> seqNumber userB = js ''2'' \<and> decimal_value (seqNumber userB) = length (users serviceA) + 1
 \<and> userCode userB = js ''01''"
proof -
  have h: "isValidEmail (js ''c@d.co'')" "isValidPassword (js ''Abcdef1!'')"
      "case None :: jsstring option of None \<Rightarrow> True | Some s \<Rightarrow> s = [] \<or> isValidPassword s"
      "isValidCpfFormat (js ''111.444.777-35'')" "isValidCpfDigits (js ''111.444.777-35'')"
      "\<not> isEmailInUse serviceA (js ''c@d.co'')" "\<not> isCpfInUse serviceA (js ''111.444.777-35'')"
    by (simp_all add: email_ex2 password_ex cpf_ex2 in_use_iff serviceA_def userA_def)
  from createUser_valid [OF h, of 0 "Some (js ''2'')" "js ''Bia''" manager]
  obtain user where u: "createUser serviceA 0 (Some (js ''2'')) (js ''Bia'') (js ''c@d.co'')
        (js ''Abcdef1!'') (js ''111.444.777-35'') manager None
        = (Inr user, serviceA \<lparr> users := users serviceA @ [user] \<rparr>)"
      "decimal_value (seqNumber user) = length (users serviceA) + 1"
    by blast
  from u(1) have "user = userB"
    by (simp add: serviceAB_created)
  with u show ?thesis
    by (simp add: userB_def)
qed

subsection \<open>Password complexity\<close>

text \<open>
  Claim C8. \<open>isValidPassword\<close> accepts a string exactly when it has at least 8 code
  units, one of them a lowercase letter, one an uppercase letter, one a digit, one a
  symbol of \<^verbatim>\<open>@$!%*?&\<close>, and every code unit is a letter, a digit or one of these symbols.
\<close>

theorem isValidPassword_iff:
  "isValidPassword p \<longleftrightarrow>
     8 \<le> length p
   \<and> (\<exists>c\<in>set p. is_lower c)
   \<and> (\<exists>c\<in>set p. is_upper c)
   \<and> (\<exists>c\<in>set p. is_digit c)
   \<and> (\<exists>c\<in>set p. is_symbol c)
   \<and> (\<forall>c\<in>set p. is_upper c \<or> is_lower c \<or> is_digit c \<or> is_symbol c)"
proof (cases "\<forall>c\<in>set p. is_password_char c")
  case True
  then show ?thesis
    by (simp add: isValidPassword_def passwordBody_def matches_AtLeast_Cls
        lookahead_password_chars) (auto simp: is_password_char_def)
next
  case False
  then show ?thesis
    by (auto simp: isValidPassword_def passwordBody_def matches_AtLeast_Cls
        is_password_char_def)
qed

theorem isValidPassword_iff_witness:
  "isValidPassword (js ''Abcdef1!'') \<and> \<not> isValidPassword (js ''Abcdef1'')
 \<and> \<not> isValidPassword (js ''abcdef1!'') \<and> \<not> isValidPassword (js ''Abcdef1! '')"
  unfolding isValidPassword_iff
  by (simp add: js_def is_lower_def is_upper_def is_digit_def is_symbol_def)

subsection \<open>What an update leaves alone\<close>

text \<open>
  Claim C9. A successful \<open>updateUser\<close> replaces the first record with the given id, at
  its position. The new record has the id, the code and the sequence number of the old
  one; its secondary password is the argument when that is a non-empty string, and the
  old secondary password otherwise; the other fields are the arguments.
\<close>

theorem updateUser_frame:
  assumes "updateUser this i n e pw c ut spw = (Inr user', this')"
  shows "\<exists>before user after.
      users this = before @ user # after
    \<and> userId user = Some i \<and> (\<forall>y\<in>set before. userId y \<noteq> Some i)
    \<and> users this' = before @ user' # after
    \<and> userId user' = userId user
    \<and> userCode user' = userCode user
    \<and> seqNumber user' = seqNumber user
    \<and> superPassword user' =
         (if spw = None \<or> spw = Some [] then superPassword user else spw)
    \<and> name user' = n \<and> email user' = e \<and> password user' = pw \<and> cpf user' = c
    \<and> userType user' = ut"
proof (cases rule: updateUser_cases [of this e pw spw c i n ut])
  case (invalid err)
  with assms show ?thesis by simp
next
  case not_found
  with assms show ?thesis by simp
next
  case (found before u after)
  have t: "truthy spw \<longleftrightarrow> \<not> (spw = None \<or> spw = Some [])"
    by (simp add: truthy_def split: option.splits)
  from found(5) assms have
    "user' = u \<lparr> name := n, email := e, password := pw, cpf := c, userType := ut,
                 superPassword := (if truthy spw then spw else superPassword u) \<rparr>"
    "users this' = before @ user' # after"
    by auto
  with found(2-4) t show ?thesis
    by (intro exI [of _ before] exI [of _ u] exI [of _ after]) simp
qed

theorem updateUser_frame_witness:
  "updateUser serviceA (js ''1'') (js ''Bia'') (js ''c@d.co'') (js ''Abcdef1!'')
     (js ''111.444.777-35'') manager None
   = (Inr (userB \<lparr> userId := Some (js ''1''), userCode := js ''00'', seqNumber := js ''1'',
                   superPassword := Some (js ''Zyxwvu9?'') \<rparr>),
      \<lparr> users = [userB \<lparr> userId := Some (js ''1''), userCode := js ''00'', seqNumber := js ''1'',
                   superPassword := Some (js ''Zyxwvu9?'') \<rparr>] \<rparr>)
 \<and> userCode userA = js ''00'' \<and> seqNumber userA = js ''1''
 \<and> superPassword userA = Some (js ''Zyxwvu9?'')"
proof -
  have v: "validateUserData serviceA (js ''c@d.co'') (js ''Abcdef1!'') None
      (js ''111.444.777-35'') = Inr ()"
    by (simp add: validateUserData_Inr_iff email_ex2 password_ex cpf_ex2 in_use_iff
        serviceA_def userA_def)
  have h: "updateUser serviceA (js ''1'') (js ''Bia'') (js ''c@d.co'') (js ''Abcdef1!'')
     (js ''111.444.777-35'') manager None
   = (Inr (userB \<lparr> userId := Some (js ''1''), userCode := js ''00'', seqNumber := js ''1'',
                   superPassword := Some (js ''Zyxwvu9?'') \<rparr>),
      \<lparr> users = [userB \<lparr> userId := Some (js ''1''), userCode := js ''00'', seqNumber := js ''1'',
                   superPassword := Some (js ''Zyxwvu9?'') \<rparr>] \<rparr>)"
    using updateUser_found [OF v, of "[]" userA "[]" "js ''1''" "js ''Bia''" manager]
    by (simp add: serviceA_def userA_def userB_def truthy_def)
  from updateUser_frame [OF h] h show ?thesis
    by (simp add: userA_def)
qed

subsection \<open>Sequence numbers repeat\<close>

text \<open>
  Claim C10. Sequence numbers are not unique: a state can be reached in which two
  records at different positions have the same sequence number. The proof creates two
  users, deletes the first and creates a third, which gets the sequence number of the
  second.
\<close>

theorem seqNumber_not_unique:
  "\<exists>this. reachable this
     \<and> (\<exists>i j. i < length (users this) \<and> j < length (users this) \<and> i \<noteq> j
          \<and> seqNumber (users this ! i) = seqNumber (users this ! j))"
proof -
  have "(0::nat) < length (users serviceBC) \<and> (1::nat) < length (users serviceBC) \<and> (0::nat) \<noteq> 1
      \<and> seqNumber (users serviceBC ! 0) = seqNumber (users serviceBC ! 1)"
    by (simp add: serviceBC_def userB_def userC_def)
  with reachable_serviceBC show ?thesis by blast
qed

end
